theory Spec2Isabelle
  imports Complex_Main "HOL-Library.AList"
begin

section \<open>Values and errors\<close>

text \<open>
  The values \<^verbatim>\<open>json.loads\<close> returns. A Python \<^verbatim>\<open>dict\<close> is the list of its items in
  insertion order; \<^verbatim>\<open>None\<close> is \<open>JNull\<close>. A Python float is carried as the real number
  it denotes (the program never computes with one).
\<close>

datatype json =
    JNull
  | JBool bool
  | JInt int
  | JFloat real
  | JStr string
  | JArr "json list"
  | JObj "(string \<times> json) list"

text \<open>
  The exceptions of Python and of the spreadsheet library that the renderer can meet.
\<close>

datatype py_exception = ValueError | TypeError | AttributeError | IllegalCharacterError

text \<open>
  The failures of the program, under the names of the specification's taxonomy:
  \<^item> \<open>NoJsonObjectFound\<close>: \<^verbatim>\<open>ValueError("No JSON object found in LLM response")\<close>;
  \<^item> \<open>MalformedJson\<close>: the \<^verbatim>\<open>JSONDecodeError\<close> of \<^verbatim>\<open>json.loads\<close>;
  \<^item> \<open>EmptyLayout\<close>: \<^verbatim>\<open>ValueError("Output data mappings are empty")\<close>;
  \<^item> \<open>BadCoordinate\<close>: an exception raised by \<^verbatim>\<open>worksheet[cell_coordinate]\<close>;
  \<^item> \<open>Raised x\<close>: any other exception \<open>x\<close>, which the program lets through: Python's own
    on iterating a value that is not iterable or on a missing attribute, and the
    library's on a sheet title, a cell value or a style argument it rejects.
  \<open>InvalidCoordinate\<close> belongs to the coordinate codec; \<open>InvalidLayoutMapping\<close> is in
  the taxonomy and is raised nowhere in the program.
\<close>

datatype error =
    NoJsonObjectFound
  | MalformedJson
  | InvalidLayoutMapping
  | EmptyLayout
  | BadCoordinate
  | InvalidCoordinate
  | Raised py_exception

section \<open>Python string operations used by \<^verbatim>\<open>parse_llm_json\<close>\<close>

text \<open>
  A string is a list of characters with code points below 256. \<^verbatim>\<open>str.strip()\<close> removes
  the characters for which \<^verbatim>\<open>str.isspace\<close> holds: in that range the code points 9 to 13,
  28 to 32, 133 and 160.
\<close>

definition is_space :: "char \<Rightarrow> bool" where
  "is_space c =
     (let n = (of_char c :: nat)
      in (9 \<le> n \<and> n \<le> 13) \<or> (28 \<le> n \<and> n \<le> 32) \<or> n = 133 \<or> n = 160)"

definition strip :: "string \<Rightarrow> string" where
  "strip s = rev (dropWhile is_space (rev (dropWhile is_space s)))"

definition startswith :: "string \<Rightarrow> string \<Rightarrow> bool" where
  "startswith s p = (take (length p) s = p)"

definition endswith :: "string \<Rightarrow> string \<Rightarrow> bool" where
  "endswith s p = (length p \<le> length s \<and> drop (length s - length p) s = p)"

definition is_ascii_letter :: "char \<Rightarrow> bool" where
  "is_ascii_letter c =
     (let n = (of_char c :: nat)
      in (65 \<le> n \<and> n \<le> 90) \<or> (97 \<le> n \<and> n \<le> 122))"

text \<open>
  \<^verbatim>\<open>re.sub(r"^```[a-zA-Z]*", "", text)\<close>: without \<^verbatim>\<open>re.MULTILINE\<close> the anchor matches at
  position 0 only, and the letters are taken greedily.
\<close>

definition sub_leading_fence :: "string \<Rightarrow> string" where
  "sub_leading_fence t =
     (if startswith t ''```'' then dropWhile is_ascii_letter (drop 3 t) else t)"

text \<open>
  \<^verbatim>\<open>re.sub(r"```$", "", text)\<close>: \<^verbatim>\<open>$\<close> matches at the end of the string and just before
  a newline that ends the string, so there is at most one match: the last three characters,
  or the three before a final newline (which stays).
\<close>

definition sub_trailing_fence :: "string \<Rightarrow> string" where
  "sub_trailing_fence t =
     (if endswith t ''```'' then take (length t - 3) t
      else if endswith t ''```\<newline>'' then take (length t - 4) t @ ''\<newline>''
      else t)"

text \<open>\<^verbatim>\<open>str.find\<close> and \<^verbatim>\<open>str.rfind\<close> for one character: the index, or \<open>-1\<close>.\<close>

primrec find_char :: "char \<Rightarrow> string \<Rightarrow> int" where
  "find_char c [] = - 1"
| "find_char c (x # xs) =
     (if x = c then 0
      else (let r = find_char c xs in if r = - 1 then - 1 else r + 1))"

definition rfind_char :: "char \<Rightarrow> string \<Rightarrow> int" where
  "rfind_char c s =
     (let r = find_char c (rev s)
      in if r = - 1 then - 1 else int (length s) - 1 - r)"

text \<open>
  \<^verbatim>\<open>text[a:b]\<close>: a negative bound counts from the end, and both bounds are clamped to
  the string.
\<close>

definition slice_bound :: "int \<Rightarrow> nat \<Rightarrow> nat" where
  "slice_bound i n = (if i < 0 then nat (max 0 (i + int n)) else min (nat i) n)"

definition py_slice :: "string \<Rightarrow> int \<Rightarrow> int \<Rightarrow> string" where
  "py_slice s a b = drop (slice_bound a (length s)) (take (slice_bound b (length s)) s)"

section \<open>The mapping ingestor: \<^verbatim>\<open>parse_llm_json\<close>\<close>

text \<open>
  Lines 193 to 198 of \<^verbatim>\<open>main.py\<close>: the text with its code fence removed.
\<close>

definition strip_fences :: "string \<Rightarrow> string" where
  "strip_fences raw_text =
     (let text = strip raw_text
      in if startswith text ''```''
         then strip (sub_trailing_fence (sub_leading_fence text))
         else text)"

text \<open>
  \<^verbatim>\<open>parse_llm_json\<close>. The library function \<^verbatim>\<open>json.loads\<close> is the parameter \<open>loads\<close>;
  \<open>None\<close> is its \<^verbatim>\<open>JSONDecodeError\<close>.
\<close>

definition parse_llm_json :: "(string \<Rightarrow> json option) \<Rightarrow> string \<Rightarrow> error + json" where
  "parse_llm_json loads raw_text =
     (let text = strip_fences raw_text;
          first_brace = find_char (CHR ''{'') text;
          last_brace = rfind_char (CHR ''}'') text
      in if first_brace = - 1 \<or> last_brace = - 1 then Inl NoJsonObjectFound
         else (case loads (py_slice text first_brace (last_brace + 1)) of
                 None \<Rightarrow> Inl MalformedJson
               | Some v \<Rightarrow> Inr v))"

text \<open>
  The text handed to \<^verbatim>\<open>json.loads\<close> when both braces are found (line 206).
\<close>

definition extracted_text :: "string \<Rightarrow> string" where
  "extracted_text raw_text =
     (let text = strip_fences raw_text
      in py_slice text (find_char (CHR ''{'') text) (rfind_char (CHR ''}'') text + 1))"

section \<open>The coordinate codec\<close>

text \<open>
  Modelled from the spec: the Coordinate Codec (\<^verbatim>\<open>encode\<close>, \<^verbatim>\<open>decode\<close>) has no source in
  \<^verbatim>\<open>main.py\<close>, which resolves an address by \<^verbatim>\<open>worksheet[cell_coordinate]\<close> inside the
  spreadsheet library. The definitions follow section 4.1 of the specification: an address
  is the column in bijective base 26 (A..Z, AA..AZ, ..., no letter for zero) followed by
  the row in decimal; \<open>encode\<close> fails with \<open>InvalidCoordinate\<close> on a non-positive row or
  column, \<open>decode\<close> on a malformed address.
\<close>

fun col_letters :: "nat \<Rightarrow> string" where
  "col_letters n =
     (if n = 0 then []
      else col_letters ((n - 1) div 26) @ [char_of (65 + (n - 1) mod 26)])"

fun row_digits :: "nat \<Rightarrow> string" where
  "row_digits n =
     (if n < 10 then [char_of (48 + n)]
      else row_digits (n div 10) @ [char_of (48 + n mod 10)])"

definition encode :: "int \<Rightarrow> int \<Rightarrow> error + string" where
  "encode row col =
     (if row < 1 \<or> col < 1 then Inl InvalidCoordinate
      else Inr (col_letters (nat col) @ row_digits (nat row)))"

definition is_upper :: "char \<Rightarrow> bool" where
  "is_upper c = (65 \<le> (of_char c :: nat) \<and> (of_char c :: nat) \<le> 90)"

definition is_digit :: "char \<Rightarrow> bool" where
  "is_digit c = (48 \<le> (of_char c :: nat) \<and> (of_char c :: nat) \<le> 57)"

definition col_number :: "string \<Rightarrow> nat" where
  "col_number s = foldl (\<lambda>acc c. acc * 26 + (of_char c - 64)) 0 s"

definition row_number :: "string \<Rightarrow> nat" where
  "row_number s = foldl (\<lambda>acc c. acc * 10 + (of_char c - 48)) 0 s"

definition decode :: "string \<Rightarrow> error + (int \<times> int)" where
  "decode address =
     (let letters = takeWhile is_upper address;
          ds = dropWhile is_upper address
      in if letters = [] \<or> ds = [] \<or> \<not> list_all is_digit ds \<or> row_number ds = 0
         then Inl InvalidCoordinate
         else Inr (int (row_number ds), int (col_number letters)))"

section \<open>Cell styles: \<^verbatim>\<open>apply_cell_style\<close>\<close>

text \<open>
  The style objects of the spreadsheet library, as records of the keyword arguments the
  program passes to their constructors; \<open>JNull\<close> is Python's \<^verbatim>\<open>None\<close>.
\<close>

record Font =
  size_font :: json
  color_font :: json
  bold :: json
  italic :: json

record PatternFill =
  start_color :: json
  end_color :: json
  fill_type :: string

record Alignment =
  horizontal :: json
  vertical :: json
  wrap_text :: bool

record Side =
  style_side :: json
  color_side :: json

record Border =
  top_side :: Side
  bottom_side :: Side
  left_side :: Side
  right_side :: Side

text \<open>
  A cell: its value and the four style attributes the program assigns; \<open>None\<close> is the
  library's default of an attribute that was never assigned.
\<close>

record cell =
  cell_value :: json
  cell_font :: "Font option"
  cell_fill :: "PatternFill option"
  cell_alignment :: "Alignment option"
  cell_border :: "Border option"

definition new_cell :: cell where
  "new_cell = \<lparr>cell_value = JNull, cell_font = None, cell_fill = None,
               cell_alignment = None, cell_border = None\<rparr>"

text \<open>What \<^verbatim>\<open>worksheet[key]\<close> gives: one cell, a tuple of cells (for a row, a column or a
  range), or an exception.\<close>

datatype lookup = Cell "int \<times> int" | Cells | NoCell

text \<open>
  The spreadsheet library is not part of the program; what the program asks of it is a
  parameter of the model:
  \<^item> \<open>new_title\<close>: the title \<^verbatim>\<open>create_sheet(title)\<close> gives the new sheet, from the titles
    already in the workbook (the library renames on a clash), or the exception it raises
    on a title it rejects;
  \<^item> \<open>getitem\<close>: \<^verbatim>\<open>worksheet[key]\<close>;
  \<^item> \<open>set_value\<close>: the value a cell holds after \<^verbatim>\<open>cell.value = v\<close>, or the exception;
  \<^item> \<open>Font_check\<close>, \<open>PatternFill_check\<close>, \<open>Alignment_check\<close>, \<open>Side_check\<close>: the
    exception the constructor raises on these arguments, if any.
\<close>

record library =
  new_title :: "string list \<Rightarrow> string \<Rightarrow> py_exception + string"
  getitem :: "json \<Rightarrow> lookup"
  set_value :: "json \<Rightarrow> py_exception + json"
  Font_check :: "Font \<Rightarrow> py_exception option"
  PatternFill_check :: "PatternFill \<Rightarrow> py_exception option"
  Alignment_check :: "Alignment \<Rightarrow> py_exception option"
  Side_check :: "Side \<Rightarrow> py_exception option"

text \<open>A constructor call: the object, or the exception of its check.\<close>

definition construct :: "py_exception option \<Rightarrow> 'a \<Rightarrow> error + 'a" where
  "construct chk obj = (case chk of Some x \<Rightarrow> Inl (Raised x) | None \<Rightarrow> Inr obj)"

text \<open>Sequencing: an exception ends the run.\<close>

definition and_then :: "error + 'a \<Rightarrow> ('a \<Rightarrow> error + 'b) \<Rightarrow> error + 'b" where
  "and_then r f = (case r of Inl e \<Rightarrow> Inl e | Inr a \<Rightarrow> f a)"

text \<open>Python's truth value of a value.\<close>

fun truthy :: "json \<Rightarrow> bool" where
  "truthy JNull = False"
| "truthy (JBool b) = b"
| "truthy (JInt n) = (n \<noteq> 0)"
| "truthy (JFloat x) = (x \<noteq> 0)"
| "truthy (JStr s) = (s \<noteq> [])"
| "truthy (JArr xs) = (xs \<noteq> [])"
| "truthy (JObj kvs) = (kvs \<noteq> [])"

text \<open>\<^verbatim>\<open>d.get(key, default)\<close>; \<^verbatim>\<open>d.get(key)\<close> is \<open>dict_get d key JNull\<close>.\<close>

definition dict_get :: "(string \<times> json) list \<Rightarrow> string \<Rightarrow> json \<Rightarrow> json" where
  "dict_get d key dflt = (case map_of d key of None \<Rightarrow> dflt | Some v \<Rightarrow> v)"

text \<open>\<^verbatim>\<open>Side(style=None)\<close>, the side without a border.\<close>

definition no_side :: Side where
  "no_side = \<lparr>style_side = JNull, color_side = JNull\<rparr>"

text \<open>The arguments of the \<^verbatim>\<open>Side\<close> that \<^verbatim>\<open>make_side\<close> constructs (lines 262 to 264).\<close>

definition side_args :: "json \<Rightarrow> json \<Rightarrow> Side" where
  "side_args border_color style =
     (if truthy style \<and> style \<noteq> JStr ''none''
      then \<lparr>style_side = style, color_side = border_color\<rparr>
      else no_side)"

definition make_side :: "library \<Rightarrow> json \<Rightarrow> json \<Rightarrow> error + Side" where
  "make_side L border_color style =
     construct (Side_check L (side_args border_color style)) (side_args border_color style)"

text \<open>
  \<^verbatim>\<open>apply_cell_style\<close>: the cell with its style assigned, or the exception of the first
  constructor that rejects its arguments, in the order of lines 235 to 271.
\<close>

definition apply_cell_style :: "library \<Rightarrow> cell \<Rightarrow> (string \<times> json) list \<Rightarrow> error + cell" where
  "apply_cell_style L c style_data =
     (let font_size = dict_get style_data ''font_size'' (JInt 11);
          font_color = dict_get style_data ''font_color'' (JStr ''000000'');
          is_bold = dict_get style_data ''is_bold'' (JBool False);
          is_italic = dict_get style_data ''is_italic'' (JBool False);
          bg_color = dict_get style_data ''background_color'' JNull;
          h_align = dict_get style_data ''horizontal_alignment'' (JStr ''left'');
          v_align = dict_get style_data ''vertical_alignment'' (JStr ''center'');
          font = \<lparr>size_font = font_size, color_font = font_color,
                  bold = is_bold, italic = is_italic\<rparr>;
          fill = \<lparr>start_color = bg_color, end_color = bg_color, fill_type = ''solid''\<rparr>;
          alignment = \<lparr>horizontal = h_align, vertical = v_align, wrap_text = True\<rparr>;
          border_color = dict_get style_data ''border_color'' (JStr ''D3D3D3'');
          border_top = dict_get style_data ''border_top'' (JStr ''none'');
          border_bottom = dict_get style_data ''border_bottom'' (JStr ''none'');
          border_left = dict_get style_data ''border_left'' (JStr ''none'');
          border_right = dict_get style_data ''border_right'' (JStr ''none'')
      in and_then (construct (Font_check L font) font) (\<lambda>f.
         and_then (if truthy bg_color
                   then and_then (construct (PatternFill_check L fill) fill)
                          (\<lambda>p. Inr (c\<lparr>cell_font := Some f, cell_fill := Some p\<rparr>))
                   else Inr (c\<lparr>cell_font := Some f\<rparr>)) (\<lambda>c2.
         and_then (construct (Alignment_check L alignment) alignment) (\<lambda>a.
         and_then (make_side L border_color border_top) (\<lambda>t.
         and_then (make_side L border_color border_bottom) (\<lambda>b.
         and_then (make_side L border_color border_left) (\<lambda>l.
         and_then (make_side L border_color border_right) (\<lambda>r.
           Inr (c2\<lparr>cell_alignment := Some a,
                    cell_border := Some \<lparr>top_side = t, bottom_side = b,
                                         left_side = l, right_side = r\<rparr>\<rparr>)))))))))"

section \<open>The renderer: \<^verbatim>\<open>generate_excel\<close>\<close>

text \<open>
  A worksheet is the list of its cells by (row, column), a workbook the list of its sheets
  by title, in order of creation. A file on disk holds the workbook that was saved to it.
\<close>

type_synonym worksheet = "((int \<times> int) \<times> cell) list"
type_synonym workbook = "(string \<times> worksheet) list"
type_synonym disk = "string \<rightharpoonup> workbook"

text \<open>\<^verbatim>\<open>Workbook()\<close>: a new workbook holds one empty sheet, titled \<^verbatim>\<open>Sheet\<close>.\<close>

definition Workbook :: workbook where
  "Workbook = [(''Sheet'', [])]"

definition sheetnames :: "workbook \<Rightarrow> string list" where
  "sheetnames wb = map fst wb"

text \<open>\<^verbatim>\<open>workbook.create_sheet(title)\<close> appends an empty sheet under the title the library
  gives it, or raises.\<close>

definition create_sheet :: "library \<Rightarrow> workbook \<Rightarrow> string \<Rightarrow> error + workbook" where
  "create_sheet L wb title =
     (case new_title L (sheetnames wb) title of
        Inl x \<Rightarrow> Inl (Raised x)
      | Inr t \<Rightarrow> Inr (wb @ [(t, [])]))"

text \<open>\<^verbatim>\<open>del workbook[title]\<close> removes the first sheet of that title.\<close>

fun del_sheet :: "workbook \<Rightarrow> string \<Rightarrow> workbook" where
  "del_sheet [] title = []"
| "del_sheet ((t, ws) # wb) title = (if t = title then wb else (t, ws) # del_sheet wb title)"

text \<open>
  What a Python \<^verbatim>\<open>for\<close> loop iterates over: the items of a list, the keys of a dict, the
  characters of a string; any other value raises \<^verbatim>\<open>TypeError\<close>.
\<close>

fun iterate :: "json \<Rightarrow> error + json list" where
  "iterate (JArr xs) = Inr xs"
| "iterate (JObj kvs) = Inr (map (\<lambda>kv. JStr (fst kv)) kvs)"
| "iterate (JStr s) = Inr (map (\<lambda>c. JStr [c]) s)"
| "iterate v = Inl (Raised TypeError)"

text \<open>
  Lines 291 to 293 for one record: the lookup (an exception there is \<open>BadCoordinate\<close>; a
  tuple of cells has no attribute \<^verbatim>\<open>value\<close> to assign), the assignment of the value to
  the cell at that position (a new cell when the position is empty), and the style.
\<close>

definition write_cell ::
    "library \<Rightarrow> worksheet \<Rightarrow> json \<Rightarrow> json \<Rightarrow> (string \<times> json) list \<Rightarrow> error + worksheet" where
  "write_cell L ws cell_coordinate v d =
     (case getitem L cell_coordinate of
        NoCell \<Rightarrow> Inl BadCoordinate
      | Cells \<Rightarrow> Inl (Raised AttributeError)
      | Cell pos \<Rightarrow>
          (case set_value L v of
             Inl x \<Rightarrow> Inl (Raised x)
           | Inr v' \<Rightarrow>
               and_then
                 (apply_cell_style L
                    ((case map_of ws pos of None \<Rightarrow> new_cell | Some c \<Rightarrow> c)\<lparr>cell_value := v'\<rparr>) d)
                 (\<lambda>c. Inr (AList.update pos c ws))))"

text \<open>
  The inner loop (lines 284 to 293). \<^verbatim>\<open>value.get\<close> raises \<^verbatim>\<open>AttributeError\<close> on a value
  that is not a dict.
\<close>

fun write_cells :: "library \<Rightarrow> worksheet \<Rightarrow> json list \<Rightarrow> error + worksheet" where
  "write_cells L ws [] = Inr ws"
| "write_cells L ws (JObj d # rest) =
     (let cell_coordinate = dict_get d ''cell_coordinate'' JNull;
          v = dict_get d ''cell_value'' JNull
      in if \<not> truthy cell_coordinate then write_cells L ws rest
         else (case write_cell L ws cell_coordinate v d of
                 Inl e \<Rightarrow> Inl e
               | Inr ws' \<Rightarrow> write_cells L ws' rest))"
| "write_cells L ws (v # rest) = Inl (Raised AttributeError)"

text \<open>
  The outer loop (lines 281 to 293). The sheet that \<^verbatim>\<open>create_sheet\<close> appended is the last
  of the workbook, and the inner loop fills it in place.
\<close>

fun fill_sheets :: "library \<Rightarrow> workbook \<Rightarrow> (string \<times> json) list \<Rightarrow> error + workbook" where
  "fill_sheets L wb [] = Inr wb"
| "fill_sheets L wb ((sheet_name, vals) # items) =
     (case create_sheet L wb sheet_name of
        Inl e \<Rightarrow> Inl e
      | Inr wb1 \<Rightarrow>
          (case iterate vals of
             Inl e \<Rightarrow> Inl e
           | Inr vs \<Rightarrow>
               (case write_cells L (snd (last wb1)) vs of
                  Inl e \<Rightarrow> Inl e
                | Inr ws \<Rightarrow> fill_sheets L (butlast wb1 @ [(fst (last wb1), ws)]) items)))"

text \<open>
  \<^verbatim>\<open>generate_excel\<close>: the result and the disk after the call. Every failure happens
  before line 302 opens the output file.
\<close>

definition generate_excel ::
    "library \<Rightarrow> string \<Rightarrow> (string \<times> json) list \<Rightarrow> disk \<Rightarrow> (error + unit) \<times> disk" where
  "generate_excel L output_path output_data_mappings dsk =
     (if output_data_mappings = [] then (Inl EmptyLayout, dsk)
      else (case fill_sheets L Workbook output_data_mappings of
              Inl e \<Rightarrow> (Inl e, dsk)
            | Inr wb \<Rightarrow>
                (let final_workbook =
                       (if ''Sheet'' \<in> set (sheetnames wb) then del_sheet wb ''Sheet'' else wb)
                 in (Inr (), dsk(output_path \<mapsto> final_workbook)))))"

section \<open>Example inputs\<close>

text \<open>
  A serialized mapping whose two records address the same cell, and the mapping it
  denotes.
\<close>

definition duplicate_text :: string where
  \<open>duplicate_text =
     ''{"S": [{"cell_coordinate": "A1", "cell_value": 1}, {"cell_coordinate": "A1", "cell_value": 2}]}''\<close>

definition duplicate_mapping :: "(string \<times> json) list" where
  "duplicate_mapping =
     [(''S'', JArr [JObj [(''cell_coordinate'', JStr ''A1''), (''cell_value'', JInt 1)],
                   JObj [(''cell_coordinate'', JStr ''A1''), (''cell_value'', JInt 2)]])]"

text \<open>
  \<^verbatim>\<open>json.loads\<close> on the texts the examples below hand to it: the two objects listed, and
  texts that are not JSON (\<^verbatim>\<open>{{}\<close> and the empty string among them).
\<close>

definition json_loads_examples :: "string \<Rightarrow> json option" where
  \<open>json_loads_examples t =
     (if t = ''{"a": 1}'' then Some (JObj [(''a'', JInt 1)])
      else if t = duplicate_text then Some (JObj duplicate_mapping)
      else None)\<close>

text \<open>
  The spreadsheet library on the arguments the examples below hand to it, where it answers
  as the library does:
  \<^item> the titles \<^verbatim>\<open>S\<close>, \<^verbatim>\<open>A\<close> and \<^verbatim>\<open>B\<close> are kept when no sheet has them yet;
  \<^item> \<^verbatim>\<open>A1\<close> and \<^verbatim>\<open>B2\<close> are the cells (1, 1) and (2, 2), and \<^verbatim>\<open>2B\<close> raises;
  \<^item> an integer, a string of letters or \<^verbatim>\<open>None\<close> is stored as it is, and a list or a dict
    raises \<^verbatim>\<open>ValueError\<close>;
  \<^item> a font takes an integer size, a colour of six hexadecimal digits and two booleans,
    and a size that is a string raises \<^verbatim>\<open>TypeError\<close>;
  \<^item> a fill takes a colour of six hexadecimal digits;
  \<^item> an alignment takes left, center or right and top, center or bottom;
  \<^item> a side takes no style, or thin, medium or thick with a colour of six hexadecimal
    digits.
  On every other argument it raises; no example uses one.
\<close>

definition is_hex_color :: "json \<Rightarrow> bool" where
  "is_hex_color v =
     (case v of
        JStr s \<Rightarrow> length s = 6 \<and> list_all (\<lambda>c. c \<in> set ''0123456789ABCDEFabcdef'') s
      | _ \<Rightarrow> False)"

definition xl_examples :: library where
  "xl_examples =
     \<lparr>new_title = (\<lambda>names t.
        if t \<in> set [''S'', ''A'', ''B''] \<and> t \<notin> set names then Inr t else Inl ValueError),
      getitem = (\<lambda>key.
        if key = JStr ''A1'' then Cell (1, 1)
        else if key = JStr ''B2'' then Cell (2, 2)
        else NoCell),
      set_value = (\<lambda>v.
        case v of
          JInt n \<Rightarrow> Inr v
        | JNull \<Rightarrow> Inr v
        | JStr s \<Rightarrow> if list_all is_ascii_letter s then Inr v else Inl IllegalCharacterError
        | _ \<Rightarrow> Inl ValueError),
      Font_check = (\<lambda>f.
        case size_font f of
          JInt n \<Rightarrow>
            (case (bold f, italic f) of
               (JBool b, JBool i) \<Rightarrow> if is_hex_color (color_font f) then None else Some ValueError
             | _ \<Rightarrow> Some TypeError)
        | _ \<Rightarrow> Some TypeError),
      PatternFill_check = (\<lambda>p. if is_hex_color (start_color p) then None else Some ValueError),
      Alignment_check = (\<lambda>a.
        if horizontal a \<in> set [JStr ''left'', JStr ''center'', JStr ''right'']
           \<and> vertical a \<in> set [JStr ''top'', JStr ''center'', JStr ''bottom'']
        then None else Some ValueError),
      Side_check = (\<lambda>s.
        if s = no_side then None
        else if style_side s \<in> set [JStr ''thin'', JStr ''medium'', JStr ''thick'']
                \<and> is_hex_color (color_side s)
        then None else Some ValueError)\<rparr>"

text \<open>The positions and values of the cells of a workbook, sheet by sheet.\<close>

definition written :: "workbook \<Rightarrow> (string \<times> ((int \<times> int) \<times> json) list) list" where
  "written wb = map (\<lambda>(n, ws). (n, map (\<lambda>(pos, c). (pos, cell_value c)) ws)) wb"

text \<open>Three records: one with a coordinate, one whose coordinate is malformed, one with none.\<close>

definition good_record :: json where
  "good_record = JObj [(''cell_coordinate'', JStr ''B2''), (''cell_value'', JInt 2)]"

definition bad_record :: json where
  "bad_record = JObj [(''cell_coordinate'', JStr ''2B''), (''cell_value'', JInt 3)]"

definition blank_record :: json where
  "blank_record = JObj [(''cell_value'', JInt 1)]"

text \<open>The style every attribute of which is the default.\<close>

definition default_styled :: "json \<Rightarrow> cell" where
  "default_styled v =
     \<lparr>cell_value = v,
      cell_font = Some \<lparr>size_font = JInt 11, color_font = JStr ''000000'',
                        bold = JBool False, italic = JBool False\<rparr>,
      cell_fill = None,
      cell_alignment = Some \<lparr>horizontal = JStr ''left'', vertical = JStr ''center'',
                             wrap_text = True\<rparr>,
      cell_border = Some \<lparr>top_side = no_side, bottom_side = no_side,
                          left_side = no_side, right_side = no_side\<rparr>\<rparr>"


declare col_letters.simps [simp del] row_digits.simps [simp del]

section \<open>Properties of the string operations\<close>

lemma find_char_bounds: "- 1 \<le> find_char c s \<and> find_char c s < int (length s)"
  by (induction s) (auto simp: Let_def)

lemma find_char_none: "(find_char c s = - 1) = (c \<notin> set s)"
proof (induction s)
  case Nil
  show ?case by simp
next
  case (Cons x s)
  have "- 1 \<le> find_char c s" using find_char_bounds by blast
  with Cons show ?case by (auto simp: Let_def)
qed

lemma find_char_first: "c \<notin> set p \<Longrightarrow> find_char c (p @ c # r) = int (length p)"
proof (induction p)
  case Nil
  show ?case by simp
next
  case (Cons x p)
  then show ?case by (auto simp: Let_def)
qed

lemma rfind_char_none: "(rfind_char c s = - 1) = (c \<notin> set s)"
proof -
  have "find_char c (rev s) < int (length s)" using find_char_bounds [of c "rev s"] by simp
  then show ?thesis
    using find_char_none [of c "rev s"] by (auto simp: rfind_char_def Let_def)
qed

lemma rfind_char_last: "c \<notin> set q \<Longrightarrow> rfind_char c (f @ c # q) = int (length f)"
proof -
  assume "c \<notin> set q"
  then have "find_char c (rev q @ c # rev f) = int (length (rev q))"
    by (intro find_char_first) simp
  then show ?thesis by (simp add: rfind_char_def Let_def)
qed

lemma py_slice_middle:
  "py_slice (p @ s @ q) (int (length p)) (int (length p + length s)) = s"
  by (simp add: py_slice_def slice_bound_def)

lemma dropWhile_stop: "\<not> P y \<Longrightarrow> dropWhile P (xs @ y # ys) = dropWhile P xs @ y # ys"
  by (induction xs) auto

lemma strip_shape:
  assumes "\<not> is_space a" "\<not> is_space b"
  shows "strip (p @ a # m @ b # q) =
           dropWhile is_space p @ a # m @ b # rev (dropWhile is_space (rev q))"
proof -
  have 1: "dropWhile is_space (p @ a # m @ b # q) = dropWhile is_space p @ a # m @ b # q"
    using assms(1) by (rule dropWhile_stop)
  have 2: "rev (dropWhile is_space p @ a # m @ b # q)
             = rev q @ b # (rev m @ a # rev (dropWhile is_space p))"
    by simp
  have 3: "dropWhile is_space (rev q @ b # (rev m @ a # rev (dropWhile is_space p)))
      = dropWhile is_space (rev q) @ b # (rev m @ a # rev (dropWhile is_space p))"
    using assms(2) by (rule dropWhile_stop)
  show ?thesis unfolding strip_def 1 2 3 by simp
qed

lemma set_dropWhile_subset: "set (dropWhile P xs) \<subseteq> set xs"
  by (induction xs) auto

lemma startswith_iff: "startswith t p = (\<exists>r. t = p @ r)"
proof
  assume "startswith t p"
  then have "t = p @ drop (length p) t"
    unfolding startswith_def using append_take_drop_id [of "length p" t] by simp
  then show "\<exists>r. t = p @ r" ..
next
  assume "\<exists>r. t = p @ r"
  then show "startswith t p" unfolding startswith_def by auto
qed

lemma endswith_iff: "endswith t s = (\<exists>f. t = f @ s)"
proof
  assume "endswith t s"
  then have "t = take (length t - length s) t @ s"
    unfolding endswith_def using append_take_drop_id [of "length t - length s" t] by simp
  then show "\<exists>f. t = f @ s" ..
next
  assume "\<exists>f. t = f @ s"
  then show "endswith t s" unfolding endswith_def by auto
qed

lemma prefix_before_stop:
  assumes "p @ a # r = u @ r'" "a \<notin> set u"
  shows "\<exists>p'. p = u @ p'"
  using assms
proof (induction u arbitrary: p)
  case Nil
  then show ?case by simp
next
  case (Cons x u)
  show ?case
  proof (cases p)
    case Nil
    with Cons.prems show ?thesis by simp
  next
    case (Cons y p2)
    with Cons.prems have "y = x" and "p2 @ a # r = u @ r'" and "a \<notin> set u" by simp_all
    then obtain p' where "p2 = u @ p'" using Cons.IH by blast
    then have "p = (x # u) @ p'" using \<open>y = x\<close> Cons by simp
    then show ?thesis ..
  qed
qed

lemma suffix_after_stop:
  assumes "f @ b # q = f' @ u" "b \<notin> set u"
  shows "\<exists>q'. q = q' @ u"
proof -
  have "rev (f @ b # q) = rev (f' @ u)" using assms(1) by simp
  then have "rev q @ b # rev f = rev u @ rev f'" by simp
  moreover have "b \<notin> set (rev u)" using assms(2) by simp
  ultimately have "\<exists>p'. rev q = rev u @ p'" by (rule prefix_before_stop)
  then obtain p' where "rev q = rev u @ p'" ..
  then have "rev (rev q) = rev (rev u @ p')" by simp
  then have "q = rev p' @ u" by simp
  then show ?thesis ..
qed

lemma leading_fence_shape:
  assumes "a \<noteq> CHR ''`''" "\<not> is_ascii_letter a"
  shows "\<exists>p'. set p' \<subseteq> set p \<and> sub_leading_fence (p @ a # r) = p' @ a # r"
proof (cases "startswith (p @ a # r) ''```''")
  case False
  then have "sub_leading_fence (p @ a # r) = p @ a # r" by (simp add: sub_leading_fence_def)
  then show ?thesis by blast
next
  case True
  then obtain r' where "p @ a # r = ''```'' @ r'" unfolding startswith_iff ..
  moreover have "a \<notin> set ''```''" using assms(1) by simp
  ultimately have "\<exists>p'. p = ''```'' @ p'" by (rule prefix_before_stop)
  then obtain p' where p: "p = ''```'' @ p'" ..
  have d: "drop 3 (p @ a # r) = p' @ a # r" unfolding p by simp
  have "sub_leading_fence (p @ a # r) = dropWhile is_ascii_letter (p' @ a # r)"
    using True unfolding sub_leading_fence_def d by simp
  also have "\<dots> = dropWhile is_ascii_letter p' @ a # r"
    using assms(2) by (rule dropWhile_stop)
  finally have 1: "sub_leading_fence (p @ a # r) = dropWhile is_ascii_letter p' @ a # r" .
  have "set (dropWhile is_ascii_letter p') \<subseteq> set p'" by (rule set_dropWhile_subset)
  moreover have "set p' \<subseteq> set p" unfolding p by auto
  ultimately have "set (dropWhile is_ascii_letter p') \<subseteq> set p" by (rule subset_trans)
  with 1 show ?thesis by blast
qed

lemma take_front: "take (length (f @ b # q' @ u) - length u) (f @ b # q' @ u) = f @ b # q'"
  by simp

lemma trailing_fence_shape:
  assumes "b \<noteq> CHR ''`''" "b \<noteq> CHR ''\<newline>''"
  shows "\<exists>q'. set q' \<subseteq> set q \<and> sub_trailing_fence (f @ b # q) = f @ b # q'"
proof (cases "endswith (f @ b # q) ''```''")
  case True
  then obtain f' where "f @ b # q = f' @ ''```''" unfolding endswith_iff ..
  moreover have "b \<notin> set ''```''" using assms(1) by simp
  ultimately have "\<exists>q'. q = q' @ ''```''" by (rule suffix_after_stop)
  then obtain q' where q: "q = q' @ ''```''" ..
  have "take (length (f @ b # q) - 3) (f @ b # q) = f @ b # q'"
    unfolding q using take_front [of f b q' "''```''"] by simp
  then have 1: "sub_trailing_fence (f @ b # q) = f @ b # q'"
    using True unfolding sub_trailing_fence_def by simp
  have "set q' \<subseteq> set q" unfolding q by auto
  with 1 show ?thesis by blast
next
  case False
  show ?thesis
  proof (cases "endswith (f @ b # q) ''```\<newline>''")
    case F2: False
    with False have "sub_trailing_fence (f @ b # q) = f @ b # q"
      unfolding sub_trailing_fence_def by simp
    then show ?thesis by blast
  next
    case True
    then obtain f' where "f @ b # q = f' @ ''```\<newline>''" unfolding endswith_iff ..
    moreover have "b \<notin> set ''```\<newline>''" using assms by simp
    ultimately have "\<exists>q'. q = q' @ ''```\<newline>''" by (rule suffix_after_stop)
    then obtain q' where q: "q = q' @ ''```\<newline>''" ..
    have "take (length (f @ b # q) - 4) (f @ b # q) = f @ b # q'"
      unfolding q using take_front [of f b q' "''```\<newline>''"] by simp
    then have 1: "sub_trailing_fence (f @ b # q) = f @ b # (q' @ ''\<newline>'')"
      using True False unfolding sub_trailing_fence_def by simp
    have "set (q' @ ''\<newline>'') \<subseteq> set q" unfolding q by auto
    with 1 show ?thesis by blast
  qed
qed

lemma in_set_dropWhile: "\<not> P c \<Longrightarrow> (c \<in> set (dropWhile P xs)) = (c \<in> set xs)"
  by (induction xs) auto

lemma in_set_strip: "\<not> is_space c \<Longrightarrow> (c \<in> set (strip s)) = (c \<in> set s)"
  unfolding strip_def by (simp add: in_set_dropWhile)

lemma in_set_leading_fence:
  assumes "c \<noteq> CHR ''`''" "\<not> is_ascii_letter c"
  shows "(c \<in> set (sub_leading_fence t)) = (c \<in> set t)"
proof (cases "startswith t ''```''")
  case False
  then show ?thesis by (simp add: sub_leading_fence_def)
next
  case True
  then obtain r where t: "t = ''```'' @ r" unfolding startswith_iff ..
  have "sub_leading_fence t = dropWhile is_ascii_letter r"
    using True unfolding sub_leading_fence_def t by simp
  then have "(c \<in> set (sub_leading_fence t)) = (c \<in> set r)"
    using assms(2) by (simp add: in_set_dropWhile)
  also have "\<dots> = (c \<in> set t)" unfolding t using assms(1) by simp
  finally show ?thesis .
qed

lemma take_front0: "take (length (f @ u) - length u) (f @ u) = f"
  by simp

lemma in_set_trailing_fence:
  assumes "c \<noteq> CHR ''`''"
  shows "(c \<in> set (sub_trailing_fence t)) = (c \<in> set t)"
proof (cases "endswith t ''```''")
  case True
  then obtain f where t: "t = f @ ''```''" unfolding endswith_iff ..
  have "take (length t - 3) t = f" unfolding t using take_front0 [of f "''```''"] by simp
  then have "sub_trailing_fence t = f" using True unfolding sub_trailing_fence_def by simp
  then show ?thesis unfolding t using assms by simp
next
  case False
  show ?thesis
  proof (cases "endswith t ''```\<newline>''")
    case F2: False
    with False show ?thesis unfolding sub_trailing_fence_def by simp
  next
    case True
    then obtain f where t: "t = f @ ''```\<newline>''" unfolding endswith_iff ..
    have "take (length t - 4) t = f"
      unfolding t using take_front0 [of f "''```\<newline>''"] by simp
    then have "sub_trailing_fence t = f @ ''\<newline>''"
      using True False unfolding sub_trailing_fence_def by simp
    then show ?thesis unfolding t using assms by simp
  qed
qed

lemma in_set_strip_fences:
  assumes "c \<noteq> CHR ''`''" "\<not> is_ascii_letter c" "\<not> is_space c"
  shows "(c \<in> set (strip_fences raw)) = (c \<in> set raw)"
  unfolding strip_fences_def Let_def
  by (simp add: in_set_strip in_set_leading_fence in_set_trailing_fence assms)

lemma brace_chars:
  "CHR ''{'' \<noteq> CHR ''`''" "\<not> is_ascii_letter (CHR ''{'')" "\<not> is_space (CHR ''{'')"
  "CHR ''}'' \<noteq> CHR ''`''" "\<not> is_ascii_letter (CHR ''}'')" "\<not> is_space (CHR ''}'')"
  "CHR ''}'' \<noteq> CHR ''\<newline>''"
  by (simp_all add: is_ascii_letter_def is_space_def)

lemma strip_fences_shape:
  assumes "CHR ''{'' \<notin> set p" "CHR ''}'' \<notin> set q"
  shows "\<exists>p' q'. strip_fences (p @ CHR ''{'' # m @ CHR ''}'' # q) = p' @ CHR ''{'' # m @ CHR ''}'' # q'
           \<and> CHR ''{'' \<notin> set p' \<and> CHR ''}'' \<notin> set q'"
proof -
  let ?a = "CHR ''{''" and ?b = "CHR ''}''"
  define p1 where "p1 = dropWhile is_space p"
  define q1 where "q1 = rev (dropWhile is_space (rev q))"
  have s1: "strip (p @ ?a # m @ ?b # q) = p1 @ ?a # m @ ?b # q1"
    unfolding p1_def q1_def by (rule strip_shape) (rule brace_chars)+
  have p1: "?a \<notin> set p1" unfolding p1_def using assms(1) set_dropWhile_subset by fastforce
  have q1: "?b \<notin> set q1" unfolding q1_def using assms(2) set_dropWhile_subset by fastforce
  show ?thesis
  proof (cases "startswith (p1 @ ?a # m @ ?b # q1) ''```''")
    case False
    then have "strip_fences (p @ ?a # m @ ?b # q) = p1 @ ?a # m @ ?b # q1"
      unfolding strip_fences_def s1 by simp
    with p1 q1 show ?thesis by blast
  next
    case True
    obtain p2 where p2: "set p2 \<subseteq> set p1"
      "sub_leading_fence (p1 @ ?a # (m @ ?b # q1)) = p2 @ ?a # (m @ ?b # q1)"
      using leading_fence_shape [OF brace_chars(1) brace_chars(2)] by blast
    obtain q2 where q2: "set q2 \<subseteq> set q1"
      "sub_trailing_fence ((p2 @ ?a # m) @ ?b # q1) = (p2 @ ?a # m) @ ?b # q2"
      using trailing_fence_shape [OF brace_chars(4) brace_chars(7)] by blast
    have "strip_fences (p @ ?a # m @ ?b # q) = strip (p2 @ ?a # m @ ?b # q2)"
      using True p2(2) q2(2) unfolding strip_fences_def s1 by simp
    also have "\<dots> = dropWhile is_space p2 @ ?a # m @ ?b # rev (dropWhile is_space (rev q2))"
      by (rule strip_shape) (rule brace_chars)+
    finally have "strip_fences (p @ ?a # m @ ?b # q)
        = dropWhile is_space p2 @ ?a # m @ ?b # rev (dropWhile is_space (rev q2))" .
    moreover have "?a \<notin> set (dropWhile is_space p2)"
      using p1 p2(1) set_dropWhile_subset by fastforce
    moreover have "?b \<notin> set (rev (dropWhile is_space (rev q2)))"
      using q1 q2(1) set_dropWhile_subset by fastforce
    ultimately show ?thesis by blast
  qed
qed

lemma parse_wrapped:
  assumes "CHR ''{'' \<notin> set p" "CHR ''}'' \<notin> set q"
  shows "parse_llm_json loads (p @ CHR ''{'' # m @ CHR ''}'' # q)
           = (case loads (CHR ''{'' # m @ ''}'') of None \<Rightarrow> Inl MalformedJson | Some v \<Rightarrow> Inr v)"
proof -
  let ?a = "CHR ''{''" and ?b = "CHR ''}''"
  obtain p' q' where sf: "strip_fences (p @ ?a # m @ ?b # q) = p' @ ?a # m @ ?b # q'"
    and p': "?a \<notin> set p'" and q': "?b \<notin> set q'"
    using strip_fences_shape [OF assms] by blast
  have f: "find_char ?a (p' @ ?a # m @ ?b # q') = int (length p')"
    using p' by (rule find_char_first)
  have "rfind_char ?b ((p' @ ?a # m) @ ?b # q') = int (length (p' @ ?a # m))"
    using q' by (rule rfind_char_last)
  then have r: "rfind_char ?b (p' @ ?a # m @ ?b # q') = int (length p' + length m + 1)" by simp
  have "py_slice (p' @ (?a # m @ [?b]) @ q') (int (length p')) (int (length p' + length (?a # m @ [?b])))
      = ?a # m @ [?b]" by (rule py_slice_middle)
  then have s: "py_slice (p' @ ?a # m @ ?b # q') (int (length p')) (int (length p' + length m + 1) + 1)
      = ?a # m @ [?b]" by (simp add: add.commute)
  show ?thesis unfolding parse_llm_json_def sf Let_def f r s by simp
qed

section \<open>The ingestor on wrapped text and on text without an object\<close>

text \<open>
  Claim C3. Let \<open>s\<close> be a text that starts with an opening brace and ends with a closing
  one (the serialization of a JSON object). Wrapped in prose \<open>p\<close> before it and \<open>q\<close>
  after it, where the braces of \<open>s\<close> stay the outermost ones (no opening brace in \<open>p\<close>, no
  closing brace in \<open>q\<close>), it parses to what \<open>s\<close> alone parses to; so does \<open>s\<close> inside one
  fenced block: three backticks, a language tag, a newline, \<open>s\<close>, a newline and three
  backticks. This holds for every \<^verbatim>\<open>json.loads\<close>, and both results are the one of
  \<^verbatim>\<open>json.loads\<close> on \<open>s\<close>.
\<close>

theorem parse_llm_json_wrapped:
  assumes "s = CHR ''{'' # m @ ''}''"
  shows "(CHR ''{'' \<notin> set p \<and> CHR ''}'' \<notin> set q \<longrightarrow>
            parse_llm_json loads (p @ s @ q) = parse_llm_json loads s)
       \<and> (CHR ''{'' \<notin> set tag \<longrightarrow>
            parse_llm_json loads (''```'' @ tag @ ''\<newline>'' @ s @ ''\<newline>```'')
              = parse_llm_json loads s)
       \<and> parse_llm_json loads s
            = (case loads s of None \<Rightarrow> Inl MalformedJson | Some v \<Rightarrow> Inr v)"
proof -
  let ?r = "case loads s of None \<Rightarrow> Inl MalformedJson | Some v \<Rightarrow> Inr v"
  have w: "parse_llm_json loads (p' @ s @ q') = ?r"
    if "CHR ''{'' \<notin> set p'" "CHR ''}'' \<notin> set q'" for p' q'
    using parse_wrapped [OF that, of loads m] unfolding assms by simp
  have "parse_llm_json loads ([] @ s @ []) = ?r" by (rule w) simp_all
  then have plain: "parse_llm_json loads s = ?r" by simp
  have prose: "parse_llm_json loads (p @ s @ q) = parse_llm_json loads s"
    if "CHR ''{'' \<notin> set p" "CHR ''}'' \<notin> set q"
    using w [OF that] plain by simp
  have fence: "parse_llm_json loads (''```'' @ tag @ ''\<newline>'' @ s @ ''\<newline>```'')
      = parse_llm_json loads s" if "CHR ''{'' \<notin> set tag"
  proof -
    have "parse_llm_json loads ((''```'' @ tag @ ''\<newline>'') @ s @ ''\<newline>```'') = ?r"
      by (rule w) (use that in simp_all)
    then show ?thesis using plain by simp
  qed
  from plain prose fence show ?thesis by blast
qed

theorem parse_llm_json_wrapped_witness:
  \<open>parse_llm_json json_loads_examples ''Here is the mapping: {"a": 1} Done.''
     = Inr (JObj [(''a'', JInt 1)])
   \<and> parse_llm_json json_loads_examples ''```json\<newline>{"a": 1}\<newline>```''
     = Inr (JObj [(''a'', JInt 1)])\<close>
  using parse_llm_json_wrapped [where s = \<open>''{"a": 1}''\<close> and m = \<open>''"a": 1''\<close>
      and p = \<open>''Here is the mapping: ''\<close> and q = \<open>'' Done.''\<close> and tag = \<open>''json''\<close>
      and loads = json_loads_examples]
  by (simp add: json_loads_examples_def)

text \<open>
  Claim C4, as amended. \<^verbatim>\<open>parse_llm_json\<close> fails with \<open>NoJsonObjectFound\<close> exactly when
  the text has no opening brace or no closing brace. A text that has both, balanced or
  not, is cut from its first opening brace to its last closing brace and handed to
  \<^verbatim>\<open>json.loads\<close>, and fails with \<open>MalformedJson\<close> exactly when \<^verbatim>\<open>json.loads\<close> rejects that
  substring.
\<close>

theorem parse_llm_json_failures:
  "((parse_llm_json loads raw = Inl NoJsonObjectFound)
      = (CHR ''{'' \<notin> set raw \<or> CHR ''}'' \<notin> set raw))
 \<and> ((parse_llm_json loads raw = Inl MalformedJson)
      = (CHR ''{'' \<in> set raw \<and> CHR ''}'' \<in> set raw \<and> loads (extracted_text raw) = None))"
proof -
  let ?t = "strip_fences raw"
  have a: "(CHR ''{'' \<in> set ?t) = (CHR ''{'' \<in> set raw)"
    by (rule in_set_strip_fences) (rule brace_chars)+
  have b: "(CHR ''}'' \<in> set ?t) = (CHR ''}'' \<in> set raw)"
    by (rule in_set_strip_fences) (rule brace_chars)+
  have f: "(find_char (CHR ''{'') ?t = - 1) = (CHR ''{'' \<notin> set raw)"
    using find_char_none [of "CHR ''{''" ?t] a by simp
  have r: "(rfind_char (CHR ''}'') ?t = - 1) = (CHR ''}'' \<notin> set raw)"
    using rfind_char_none [of "CHR ''}''" ?t] b by simp
  show ?thesis
    unfolding parse_llm_json_def extracted_text_def Let_def
    using f r by (auto split: option.splits)
qed

theorem parse_llm_json_failures_witness:
  \<open>parse_llm_json json_loads_examples ''no object here'' = Inl NoJsonObjectFound
   \<and> parse_llm_json json_loads_examples ''{"a": 1'' = Inl NoJsonObjectFound
   \<and> parse_llm_json json_loads_examples ''{"a": 1}}'' = Inl MalformedJson\<close>
proof -
  have e: \<open>extracted_text ''{"a": 1}}'' = ''{"a": 1}}''\<close>
    by (simp add: extracted_text_def strip_fences_def strip_def startswith_def
          rfind_char_def py_slice_def slice_bound_def is_space_def)
  show ?thesis
    using parse_llm_json_failures [of json_loads_examples \<open>''no object here''\<close>]
      parse_llm_json_failures [of json_loads_examples \<open>''{"a": 1''\<close>]
      parse_llm_json_failures [of json_loads_examples \<open>''{"a": 1}}''\<close>]
    unfolding e by (simp add: json_loads_examples_def duplicate_text_def)
qed

text \<open>
  Claim C4 as stated fails: the text \<^verbatim>\<open>{{}\<close> has unbalanced braces, and the text \<^verbatim>\<open>}{\<close>
  has no brace that encloses anything; both pass the test of line 203 and fail in
  \<^verbatim>\<open>json.loads\<close>.
\<close>

theorem unbalanced_braces_counterexample:
  "parse_llm_json json_loads_examples ''{{}'' = Inl MalformedJson
   \<and> parse_llm_json json_loads_examples ''}{'' = Inl MalformedJson"
  by (simp add: parse_llm_json_def strip_fences_def strip_def startswith_def
        rfind_char_def py_slice_def slice_bound_def is_space_def
        json_loads_examples_def duplicate_text_def)

section \<open>The coordinate codec round-trips\<close>


lemma col_number_snoc: "col_number (xs @ [c]) = col_number xs * 26 + (of_char c - 64)"
  by (simp add: col_number_def)

lemma row_number_snoc: "row_number (xs @ [c]) = row_number xs * 10 + (of_char c - 48)"
  by (simp add: row_number_def)

lemma col_number_letters: "col_number (col_letters n) = n"
proof (induction n rule: col_letters.induct)
  case (1 n)
  show ?case
  proof (cases "n = 0")
    case True
    then show ?thesis by (simp add: col_letters.simps col_number_def)
  next
    case False
    have m: "(n - 1) mod 26 < 26" by simp
    have "col_number (col_letters n)
        = col_number (col_letters ((n - 1) div 26)) * 26
          + (of_char (char_of (65 + (n - 1) mod 26) :: char) - 64)"
      using False by (subst col_letters.simps) (simp add: col_number_snoc)
    also have "\<dots> = (n - 1) div 26 * 26 + ((65 + (n - 1) mod 26) mod 256 - 64)"
      using "1.IH" [OF False] by simp
    also have "(65 + (n - 1) mod 26) mod 256 = 65 + (n - 1) mod 26" using m by simp
    also have "(n - 1) div 26 * 26 + (65 + (n - 1) mod 26 - 64) = n" using False by simp
    finally show ?thesis .
  qed
qed

lemma row_number_digits: "row_number (row_digits n) = n"
proof (induction n rule: row_digits.induct)
  case (1 n)
  show ?case
  proof (cases "n < 10")
    case True
    then show ?thesis by (simp add: row_digits.simps row_number_def)
  next
    case False
    have m: "n mod 10 < 10" by simp
    have "row_number (row_digits n)
        = row_number (row_digits (n div 10)) * 10 + (of_char (char_of (48 + n mod 10) :: char) - 48)"
      using False by (subst row_digits.simps) (simp add: row_number_snoc)
    also have "\<dots> = n div 10 * 10 + ((48 + n mod 10) mod 256 - 48)"
      using "1.IH" [OF False] by simp
    also have "(48 + n mod 10) mod 256 = 48 + n mod 10" using m by simp
    also have "n div 10 * 10 + (48 + n mod 10 - 48) = n" by simp
    finally show ?thesis .
  qed
qed

lemma col_letters_upper: "list_all is_upper (col_letters n)"
proof (induction n rule: col_letters.induct)
  case (1 n)
  show ?case
  proof (cases "n = 0")
    case True
    then show ?thesis by (simp add: col_letters.simps)
  next
    case False
    have m: "(n - 1) mod 26 < 26" by simp
    then have "(65 + (n - 1) mod 26) mod 256 = 65 + (n - 1) mod 26" by simp
    then have "is_upper (char_of (65 + (n - 1) mod 26))" using m by (simp add: is_upper_def)
    then show ?thesis using False "1.IH" [OF False] by (subst col_letters.simps) simp
  qed
qed

lemma row_digits_digit: "list_all is_digit (row_digits n)"
proof (induction n rule: row_digits.induct)
  case (1 n)
  have m: "n mod 10 < 10" by simp
  then have "(48 + n mod 10) mod 256 = 48 + n mod 10" by simp
  then have d: "is_digit (char_of (48 + n mod 10))" using m by (simp add: is_digit_def)
  show ?case
  proof (cases "n < 10")
    case True
    then show ?thesis using d by (subst row_digits.simps) simp
  next
    case False
    then show ?thesis using d "1.IH" [OF False] by (subst row_digits.simps) simp
  qed
qed

lemma row_digits_nonempty: "row_digits n \<noteq> []"
  by (subst row_digits.simps) simp

lemma col_letters_nonempty: "n \<noteq> 0 \<Longrightarrow> col_letters n \<noteq> []"
  by (subst col_letters.simps) simp

lemma digit_not_upper: "is_digit c \<Longrightarrow> \<not> is_upper c"
  by (simp add: is_digit_def is_upper_def)

lemma split_address:
  assumes "list_all is_upper ls" "list_all is_digit ds"
  shows "takeWhile is_upper (ls @ ds) = ls" and "dropWhile is_upper (ls @ ds) = ds"
proof -
  have u: "\<forall>x\<in>set ls. is_upper x" using assms(1) by (simp add: list_all_iff)
  have d: "\<forall>x\<in>set ds. \<not> is_upper x" using assms(2) digit_not_upper by (auto simp: list_all_iff)
  have t: "takeWhile is_upper ds = []" using d by (cases ds) auto
  have dr: "dropWhile is_upper ds = ds" using d by (cases ds) auto
  show "takeWhile is_upper (ls @ ds) = ls" using u t by (simp add: takeWhile_append2)
  show "dropWhile is_upper (ls @ ds) = ds" using u dr by (simp add: dropWhile_append2)
qed

lemma decode_encode:
  assumes "1 \<le> row" "1 \<le> col"
  shows "decode (col_letters (nat col) @ row_digits (nat row)) = Inr (row, col)"
proof -
  let ?ls = "col_letters (nat col)" and ?ds = "row_digits (nat row)"
  have s: "takeWhile is_upper (?ls @ ?ds) = ?ls" "dropWhile is_upper (?ls @ ?ds) = ?ds"
    using split_address [OF col_letters_upper row_digits_digit] by blast+
  have "?ls \<noteq> []" using assms(2) by (intro col_letters_nonempty) simp
  moreover have "row_number ?ds \<noteq> 0" using assms(1) by (simp add: row_number_digits)
  ultimately show ?thesis
    unfolding decode_def s Let_def
    using assms by (simp add: row_digits_nonempty row_digits_digit row_number_digits col_number_letters)
qed

text \<open>
  Claim C5. On every row and column of at least 1 (the range 1 to 1000 of the claim
  included) \<open>encode\<close> returns an address that \<open>decode\<close> takes back to the same row and
  column; on a row or column below 1 it fails with \<open>InvalidCoordinate\<close>; and the columns
  1, 26, 27, 702 and 703 are written A, Z, AA, ZZ and AAA.
\<close>

theorem codec_round_trip:
  "(1 \<le> row \<and> 1 \<le> col \<longrightarrow>
      (\<exists>a. encode row col = Inr a \<and> decode a = Inr (row, col)))
   \<and> (row < 1 \<or> col < 1 \<longrightarrow> encode row col = Inl InvalidCoordinate)
   \<and> encode 1 1 = Inr ''A1'' \<and> encode 1 26 = Inr ''Z1'' \<and> encode 1 27 = Inr ''AA1''
   \<and> encode 1 702 = Inr ''ZZ1'' \<and> encode 1 703 = Inr ''AAA1''"
proof -
  have 1: "1 \<le> row \<and> 1 \<le> col \<longrightarrow> (\<exists>a. encode row col = Inr a \<and> decode a = Inr (row, col))"
    using decode_encode [of row col] by (auto simp: encode_def)
  have 2: "row < 1 \<or> col < 1 \<longrightarrow> encode row col = Inl InvalidCoordinate"
    by (auto simp: encode_def)
  have 3: "encode 1 1 = Inr ''A1''" "encode 1 26 = Inr ''Z1''" "encode 1 27 = Inr ''AA1''"
    "encode 1 702 = Inr ''ZZ1''" "encode 1 703 = Inr ''AAA1''" by code_simp+
  from 1 2 3 show ?thesis by blast
qed

theorem codec_round_trip_witness:
  "encode 1000 1000 = Inr ''ALL1000'' \<and> decode ''ALL1000'' = Inr (1000, 1000)
   \<and> encode 0 5 = Inl InvalidCoordinate"
proof -
  have e: "encode 1000 1000 = Inr ''ALL1000''" by code_simp
  show ?thesis using codec_round_trip [of 1000 1000] codec_round_trip [of 0 5] e by simp
qed

section \<open>Cell styles\<close>


lemma and_then_Inl: "(and_then r f = Inl e) = (r = Inl e \<or> (\<exists>a. r = Inr a \<and> f a = Inl e))"
  by (cases r) (simp_all add: and_then_def)


lemma construct_Inl: "(construct chk obj = Inl e) = (\<exists>x. chk = Some x \<and> e = Raised x)"
  by (cases chk) (auto simp: construct_def)


lemma make_side_Inl: "make_side L bc st = Inl e \<Longrightarrow> \<exists>x. e = Raised x"
  by (auto simp: make_side_def construct_Inl)


lemma apply_cell_style_Inl: "apply_cell_style L c d = Inl e \<Longrightarrow> \<exists>x. e = Raised x"
  unfolding apply_cell_style_def Let_def
  by (auto simp: and_then_Inl construct_Inl dest: make_side_Inl split: if_splits)




section \<open>The renderer\<close>

lemma butlast_last_new [simp]:
  "snd (last (wb @ [(t, [])])) = []" "fst (last (wb @ [(t, [])])) = t"
  "butlast (wb @ [(t, [])]) = wb"
  by simp_all

lemma fill_sheets_step:
  "fill_sheets L wb ((sheet_name, vals) # items) =
     (case new_title L (sheetnames wb) sheet_name of
        Inl x \<Rightarrow> Inl (Raised x)
      | Inr t \<Rightarrow>
          (case iterate vals of
             Inl e \<Rightarrow> Inl e
           | Inr vs \<Rightarrow>
               (case write_cells L [] vs of
                  Inl e \<Rightarrow> Inl e
                | Inr ws \<Rightarrow> fill_sheets L (wb @ [(t, ws)]) items)))"
  by (simp add: create_sheet_def split: sum.splits)

lemma fill_sheets_induct [case_names Nil Cons]:
  assumes "\<And>wb. P wb []"
    and "\<And>wb sheet_name vals items.
           (\<And>t vs ws. new_title L (sheetnames wb) sheet_name = Inr t \<Longrightarrow> iterate vals = Inr vs
               \<Longrightarrow> write_cells L [] vs = Inr ws \<Longrightarrow> P (wb @ [(t, ws)]) items)
           \<Longrightarrow> P wb ((sheet_name, vals) # items)"
  shows "P wb m"
proof (induction m arbitrary: wb)
  case Nil
  show ?case by (rule assms(1))
next
  case (Cons x m)
  obtain n v where x: "x = (n, v)" by (cases x)
  show ?case unfolding x by (rule assms(2)) (rule Cons.IH)
qed

declare fill_sheets.simps(2) [simp del]
declare fill_sheets_step [simp]

lemma write_cell_error:
  "write_cell L ws k v d = Inl e \<Longrightarrow> e = BadCoordinate \<or> (\<exists>x. e = Raised x)"
  by (auto simp: write_cell_def and_then_Inl split: lookup.splits sum.splits
        dest: apply_cell_style_Inl)

lemma write_cells_error:
  "write_cells L ws vs = Inl e \<Longrightarrow> e = BadCoordinate \<or> (\<exists>x. e = Raised x)"
proof (induction L ws vs rule: write_cells.induct)
  case (2 L ws d rest)
  then show ?case
    by (auto simp: Let_def split: if_splits sum.splits dest: write_cell_error)
qed auto

lemma iterate_error: "iterate v = Inl e \<Longrightarrow> e = Raised TypeError"
  by (cases v) auto

lemma fill_sheets_error:
  "fill_sheets L wb m = Inl e \<Longrightarrow> e = BadCoordinate \<or> (\<exists>x. e = Raised x)"
proof (induction wb m rule: fill_sheets_induct [where L = L])
  case (Cons wb sheet_name vals items)
  then show ?case
    by (auto split: sum.splits dest: iterate_error write_cells_error)
qed simp

lemma write_cells_append:
  "write_cells L ws (xs @ rest)
     = (case write_cells L ws xs of Inl e \<Rightarrow> Inl e | Inr ws' \<Rightarrow> write_cells L ws' rest)"
proof (induction L ws xs rule: write_cells.induct)
  case (2 L ws d rest')
  then show ?case
    by (auto simp: Let_def split: sum.splits)
qed simp_all

lemma fill_sheets_append:
  "fill_sheets L wb (pre @ post)
     = (case fill_sheets L wb pre of Inl e \<Rightarrow> Inl e | Inr wb' \<Rightarrow> fill_sheets L wb' post)"
proof (induction wb pre rule: fill_sheets_induct [where L = L])
  case (Cons wb sheet_name vals items)
  then show ?case by (auto split: sum.splits)
qed simp

lemma fill_sheets_names:
  "fill_sheets L wb m = Inr wb' \<Longrightarrow>
     \<exists>new. wb' = wb @ new
       \<and> list_all2 (\<lambda>sh it. \<exists>names. new_title L names (fst it) = Inr (fst sh)) new m"
proof (induction wb m rule: fill_sheets_induct [where L = L])
  case (Nil wb)
  then show ?case by simp
next
  case (Cons wb sheet_name vals items)
  from Cons.prems obtain t vs ws where
    n: "new_title L (sheetnames wb) sheet_name = Inr t"
    and i: "iterate vals = Inr vs" and w: "write_cells L [] vs = Inr ws"
    and f: "fill_sheets L (wb @ [(t, ws)]) items = Inr wb'"
    by (auto split: sum.splits)
  from Cons.IH [OF n i w f] obtain new where new: "wb' = (wb @ [(t, ws)]) @ new"
    "list_all2 (\<lambda>sh it. \<exists>names. new_title L names (fst it) = Inr (fst sh)) new items" by blast
  have "\<exists>names. new_title L names (fst (sheet_name, vals)) = Inr (fst (t, ws))"
    using n by auto
  with new(2) have "list_all2 (\<lambda>sh it. \<exists>names. new_title L names (fst it) = Inr (fst sh))
      ((t, ws) # new) ((sheet_name, vals) # items)" by simp
  moreover have "wb' = wb @ ((t, ws) # new)" using new(1) by simp
  ultimately show ?case by blast
qed

lemma write_cells_skip:
  assumes "\<not> truthy (dict_get r ''cell_coordinate'' JNull)"
  shows "write_cells L ws (xs @ JObj r # ys) = write_cells L ws (xs @ ys)"
  using assms by (simp add: write_cells_append [of L ws xs] Let_def split: sum.splits)

lemma fill_sheets_sheet_cong:
  assumes "(case iterate v1 of Inl e \<Rightarrow> Inl e | Inr vs \<Rightarrow> write_cells L [] vs)
         = (case iterate v2 of Inl e \<Rightarrow> Inl e | Inr vs \<Rightarrow> write_cells L [] vs)"
  shows "fill_sheets L wb (pre @ (n, v1) # post) = fill_sheets L wb (pre @ (n, v2) # post)"
proof -
  have "fill_sheets L wb' ((n, v1) # post) = fill_sheets L wb' ((n, v2) # post)" for wb'
    using assms by (auto split: sum.splits)
  then show ?thesis by (simp add: fill_sheets_append [of L wb pre] split: sum.splits)
qed

lemma skip_in_mapping:
  assumes "\<not> truthy (dict_get r ''cell_coordinate'' JNull)"
  shows "generate_excel L path (pre @ (name, JArr (xs @ JObj r # ys)) # post) dsk
           = generate_excel L path (pre @ (name, JArr (xs @ ys)) # post) dsk"
proof -
  have "fill_sheets L Workbook (pre @ (name, JArr (xs @ JObj r # ys)) # post)
      = fill_sheets L Workbook (pre @ (name, JArr (xs @ ys)) # post)"
    by (rule fill_sheets_sheet_cong) (simp add: write_cells_skip [OF assms])
  then show ?thesis by (simp add: generate_excel_def)
qed

lemma generate_excel_failure:
  "fill_sheets L Workbook m = Inl e \<Longrightarrow> m \<noteq> [] \<Longrightarrow> generate_excel L path m dsk = (Inl e, dsk)"
  by (simp add: generate_excel_def)

lemma generate_excel_success:
  "fill_sheets L Workbook m = Inr ((''Sheet'', []) # wb) \<Longrightarrow> m \<noteq> []
     \<Longrightarrow> generate_excel L path m dsk = (Inr (), dsk(path \<mapsto> wb))"
  by (simp add: generate_excel_def sheetnames_def)

lemma generate_excel_cases:
  "generate_excel L path m dsk = (Inl EmptyLayout, dsk) \<and> m = []
   \<or> (\<exists>e. generate_excel L path m dsk = (Inl e, dsk) \<and> m \<noteq> [] \<and> fill_sheets L Workbook m = Inl e)
   \<or> (\<exists>wb. generate_excel L path m dsk = (Inr (), dsk(path \<mapsto> wb)) \<and> m \<noteq> []
         \<and> fill_sheets L Workbook m = Inr ((''Sheet'', []) # wb)
         \<and> list_all2 (\<lambda>sh it. \<exists>names. new_title L names (fst it) = Inr (fst sh)) wb m)"
proof (cases "m = []")
  case True
  then show ?thesis by (simp add: generate_excel_def)
next
  case False
  show ?thesis
  proof (cases "fill_sheets L Workbook m")
    case (Inl e)
    then show ?thesis using False generate_excel_failure by blast
  next
    case (Inr wb0)
    from fill_sheets_names [OF Inr] obtain new where
      n: "wb0 = Workbook @ new"
      "list_all2 (\<lambda>sh it. \<exists>names. new_title L names (fst it) = Inr (fst sh)) new m" by blast
    then have w: "fill_sheets L Workbook m = Inr ((''Sheet'', []) # new)"
      using Inr by (simp add: Workbook_def)
    from generate_excel_success [OF w False] w n(2) False show ?thesis by blast
  qed
qed

lemma write_one:
  assumes "truthy (dict_get g ''cell_coordinate'' JNull)"
    and "getitem L (dict_get g ''cell_coordinate'' JNull) = Cell pos"
    and "set_value L (dict_get g ''cell_value'' JNull) = Inr v'"
    and "apply_cell_style L
           ((case map_of ws pos of None \<Rightarrow> new_cell | Some c \<Rightarrow> c)\<lparr>cell_value := v'\<rparr>) g = Inr cl"
  shows "write_cells L ws [JObj g] = Inr (AList.update pos cl ws)"
  using assms by (simp add: write_cell_def and_then_def Let_def)

lemma write_cells_no_cell:
  assumes "truthy (dict_get d ''cell_coordinate'' JNull)"
    and "getitem L (dict_get d ''cell_coordinate'' JNull) = NoCell
       \<or> getitem L (dict_get d ''cell_coordinate'' JNull) = Cells"
  shows "write_cells L ws (JObj d # ys)
           = Inl (if getitem L (dict_get d ''cell_coordinate'' JNull) = NoCell
                  then BadCoordinate else Raised AttributeError)"
  using assms by (auto simp: write_cell_def Let_def)





text \<open>
  Claim C7. When \<^verbatim>\<open>generate_excel\<close> fails, whichever record made it fail, the disk is
  as it was before the call: the workbook is built record by record in memory and the
  output file is opened only after the last record. When it succeeds, the disk differs
  in the output path alone.
\<close>

theorem generate_excel_atomic:
  "(fst (generate_excel L path m dsk) \<noteq> Inr () \<longrightarrow> snd (generate_excel L path m dsk) = dsk)
   \<and> (fst (generate_excel L path m dsk) = Inr ()
        \<longrightarrow> (\<exists>wb. snd (generate_excel L path m dsk) = dsk(path \<mapsto> wb)))"
  using generate_excel_cases [of L path m dsk] by auto

theorem generate_excel_atomic_witness:
  "fst (generate_excel xl_examples ''out.xlsx'' [(''S'', JArr [good_record, bad_record])]
          [''out.xlsx'' \<mapsto> Workbook]) = Inl BadCoordinate
   \<and> snd (generate_excel xl_examples ''out.xlsx'' [(''S'', JArr [good_record, bad_record])]
          [''out.xlsx'' \<mapsto> Workbook]) = [''out.xlsx'' \<mapsto> Workbook]"
proof -
  have "fst (generate_excel xl_examples ''out.xlsx'' [(''S'', JArr [good_record, bad_record])]
          [''out.xlsx'' \<mapsto> Workbook]) = Inl BadCoordinate" by code_simp
  then show ?thesis
    using generate_excel_atomic [of xl_examples "''out.xlsx''"
        "[(''S'', JArr [good_record, bad_record])]" "[''out.xlsx'' \<mapsto> Workbook]"] by simp
qed

text \<open>
  Claim C6, as amended. If the coordinate of a record is true in Python's sense (present
  and not \<^verbatim>\<open>None\<close>, empty, zero or false) and \<^verbatim>\<open>worksheet[cell_coordinate]\<close> does not give
  a cell for it, \<^verbatim>\<open>generate_excel\<close> fails and writes no file, so that the records after
  it are never written. When the mapping cut just before that record is applied without
  error, the failure is \<open>BadCoordinate\<close> if the lookup raises, and \<^verbatim>\<open>AttributeError\<close> if
  it gives a tuple of cells. A record whose coordinate is not true in Python's sense is
  skipped: the run is the run on the mapping without it.
\<close>

theorem bad_coordinate_fails:
  "(truthy (dict_get d ''cell_coordinate'' JNull)
      \<and> (getitem L (dict_get d ''cell_coordinate'' JNull) = NoCell
         \<or> getitem L (dict_get d ''cell_coordinate'' JNull) = Cells)
    \<longrightarrow> (\<exists>e. generate_excel L path (pre @ (name, JArr (xs @ JObj d # ys)) # post) dsk
                 = (Inl e, dsk)
            \<and> (\<not> isl (fill_sheets L Workbook (pre @ [(name, JArr xs)]))
                 \<longrightarrow> e = (if getitem L (dict_get d ''cell_coordinate'' JNull) = NoCell
                          then BadCoordinate else Raised AttributeError))))
   \<and> (\<not> truthy (dict_get d ''cell_coordinate'' JNull)
    \<longrightarrow> generate_excel L path (pre @ (name, JArr (xs @ JObj d # ys)) # post) dsk
          = generate_excel L path (pre @ (name, JArr (xs @ ys)) # post) dsk)"
proof -
  let ?m = "pre @ (name, JArr (xs @ JObj d # ys)) # post"
  let ?c = "dict_get d ''cell_coordinate'' JNull"
  let ?err = "if getitem L ?c = NoCell then BadCoordinate else Raised AttributeError"
  have 1: "\<exists>e. generate_excel L path ?m dsk = (Inl e, dsk)
            \<and> (\<not> isl (fill_sheets L Workbook (pre @ [(name, JArr xs)])) \<longrightarrow> e = ?err)"
    if t: "truthy ?c" and g: "getitem L ?c = NoCell \<or> getitem L ?c = Cells"
  proof -
    have w: "write_cells L ws (JObj d # ys) = Inl ?err" for ws
      using t g by (rule write_cells_no_cell)
    have wc: "write_cells L [] (xs @ JObj d # ys)
        = (case write_cells L [] xs of Inl e \<Rightarrow> Inl e | Inr ws' \<Rightarrow> Inl ?err)"
      by (simp only: write_cells_append [of L "[]" xs] w)
    have full: "fill_sheets L wb' ((name, JArr (xs @ JObj d # ys)) # post)
        = (case new_title L (sheetnames wb') name of
             Inl x \<Rightarrow> Inl (Raised x)
           | Inr t \<Rightarrow> (case write_cells L [] xs of Inl e \<Rightarrow> Inl e | Inr ws' \<Rightarrow> Inl ?err))" for wb'
      by (simp add: wc split: sum.splits)
    have cut: "fill_sheets L wb' [(name, JArr xs)]
        = (case new_title L (sheetnames wb') name of
             Inl x \<Rightarrow> Inl (Raised x)
           | Inr t \<Rightarrow> (case write_cells L [] xs of Inl e \<Rightarrow> Inl e
                        | Inr ws' \<Rightarrow> Inr (wb' @ [(t, ws')])))" for wb'
      by (simp split: sum.splits)
    have "\<exists>e. fill_sheets L Workbook ?m = Inl e
          \<and> (\<not> isl (fill_sheets L Workbook (pre @ [(name, JArr xs)])) \<longrightarrow> e = ?err)"
    proof (cases "fill_sheets L Workbook pre")
      case (Inl e)
      then show ?thesis by (simp add: fill_sheets_append [of L Workbook pre])
    next
      case (Inr wb')
      show ?thesis
      proof (cases "new_title L (sheetnames wb') name")
        case (Inl x)
        have "fill_sheets L Workbook ?m = Inl (Raised x)"
          by (simp only: fill_sheets_append [of L Workbook pre] Inr full Inl sum.case)
        moreover have "fill_sheets L Workbook (pre @ [(name, JArr xs)]) = Inl (Raised x)"
          by (simp only: fill_sheets_append [of L Workbook pre] Inr cut Inl sum.case)
        ultimately show ?thesis by simp
      next
        case n: (Inr t)
        have A: "fill_sheets L Workbook ?m
            = (case write_cells L [] xs of Inl e \<Rightarrow> Inl e | Inr ws' \<Rightarrow> Inl ?err)"
          by (simp only: fill_sheets_append [of L Workbook pre] Inr full n sum.case)
        have B: "fill_sheets L Workbook (pre @ [(name, JArr xs)])
            = (case write_cells L [] xs of Inl e \<Rightarrow> Inl e | Inr ws' \<Rightarrow> Inr (wb' @ [(t, ws')]))"
          by (simp only: fill_sheets_append [of L Workbook pre] Inr cut n sum.case)
        show ?thesis unfolding A B by (cases "write_cells L [] xs") simp_all
      qed
    qed
    then obtain e where e: "fill_sheets L Workbook ?m = Inl e"
      "\<not> isl (fill_sheets L Workbook (pre @ [(name, JArr xs)])) \<longrightarrow> e = ?err" by blast
    have "generate_excel L path ?m dsk = (Inl e, dsk)"
      by (rule generate_excel_failure [OF e(1)]) simp
    with e(2) show ?thesis by blast
  qed
  have 2: "generate_excel L path ?m dsk
          = generate_excel L path (pre @ (name, JArr (xs @ ys)) # post) dsk"
    if "\<not> truthy ?c"
    using that by (rule skip_in_mapping)
  from 1 2 show ?thesis by blast
qed

theorem bad_coordinate_fails_witness:
  "generate_excel xl_examples ''out.xlsx''
       [(''S'', JArr [good_record, bad_record, good_record])] Map.empty
     = (Inl BadCoordinate, Map.empty)
   \<and> generate_excel xl_examples ''out.xlsx''
       [(''S'', JArr [good_record, JObj [(''cell_coordinate'', JInt 0), (''cell_value'', JInt 3)]])]
       Map.empty
     = generate_excel xl_examples ''out.xlsx'' [(''S'', JArr [good_record])] Map.empty"
proof -
  let ?bad = "[(''cell_coordinate'', JStr ''2B''), (''cell_value'', JInt 3)]"
  let ?zero = "[(''cell_coordinate'', JInt 0), (''cell_value'', JInt 3)]"
  have t: "truthy (dict_get ?bad ''cell_coordinate'' JNull)" by code_simp
  have g: "getitem xl_examples (dict_get ?bad ''cell_coordinate'' JNull) = NoCell" by code_simp
  have p: "\<not> isl (fill_sheets xl_examples Workbook ([] @ [(''S'', JArr [good_record])]))"
    by code_simp
  have z: "\<not> truthy (dict_get ?zero ''cell_coordinate'' JNull)" by code_simp
  have 1: "generate_excel xl_examples ''out.xlsx''
       [(''S'', JArr [good_record, bad_record, good_record])] Map.empty
     = (Inl BadCoordinate, Map.empty)"
    using bad_coordinate_fails [where d = ?bad and L = xl_examples and path = "''out.xlsx''"
        and pre = "[]" and name = "''S''" and xs = "[good_record]" and ys = "[good_record]"
        and post = "[]" and dsk = Map.empty] t g p
    by (auto simp: bad_record_def)
  have 2: "generate_excel xl_examples ''out.xlsx'' [(''S'', JArr [good_record, JObj ?zero])] Map.empty
     = generate_excel xl_examples ''out.xlsx'' [(''S'', JArr [good_record])] Map.empty"
    using bad_coordinate_fails [where d = ?zero and L = xl_examples and path = "''out.xlsx''"
        and pre = "[]" and name = "''S''" and xs = "[good_record]" and ys = "[]"
        and post = "[]" and dsk = Map.empty] z
    by simp
  from 1 2 show ?thesis ..
qed

text \<open>
  Claim C6 as stated fails for a coordinate that is absent: the record is skipped by
  line 288, the next record is written to B2 and the call succeeds.
\<close>

theorem absent_coordinate_counterexample:
  "fst (generate_excel xl_examples ''out.xlsx'' [(''S'', JArr [blank_record, good_record])]
          Map.empty) = Inr ()
   \<and> map_option written
        (snd (generate_excel xl_examples ''out.xlsx'' [(''S'', JArr [blank_record, good_record])]
                Map.empty) ''out.xlsx'')
       = Some [(''S'', [((2, 2), JInt 2)])]"
  by code_simp

text \<open>
  Claim C2, as amended. \<^verbatim>\<open>parse_llm_json\<close> returns what \<^verbatim>\<open>json.loads\<close> returns for the
  extracted text, unchanged and unchecked; neither it nor \<^verbatim>\<open>generate_excel\<close> ever fails with
  \<open>InvalidLayoutMapping\<close>; and a record whose coordinate is the position of a cell the
  sheet already holds is not refused: when the library accepts its value and its style,
  the record is written over that cell.
\<close>

theorem no_layout_validation:
  "parse_llm_json loads raw \<noteq> Inl InvalidLayoutMapping
   \<and> (parse_llm_json loads raw = Inr v \<longrightarrow> loads (extracted_text raw) = Some v)
   \<and> fst (generate_excel L path m dsk) \<noteq> Inl InvalidLayoutMapping
   \<and> (truthy (dict_get r ''cell_coordinate'' JNull)
        \<and> getitem L (dict_get r ''cell_coordinate'' JNull) = Cell pos
        \<and> map_of ws pos = Some old
        \<and> set_value L (dict_get r ''cell_value'' JNull) = Inr v'
        \<and> apply_cell_style L (old\<lparr>cell_value := v'\<rparr>) r = Inr cl
      \<longrightarrow> write_cells L ws [JObj r] = Inr (AList.update pos cl ws))"
proof -
  have 1: "parse_llm_json loads raw \<noteq> Inl InvalidLayoutMapping"
    by (simp add: parse_llm_json_def Let_def split: option.splits)
  have 2: "parse_llm_json loads raw = Inr v \<longrightarrow> loads (extracted_text raw) = Some v"
    by (simp add: parse_llm_json_def extracted_text_def Let_def split: option.splits if_splits)
  have 3: "fst (generate_excel L path m dsk) \<noteq> Inl InvalidLayoutMapping"
    using generate_excel_cases [of L path m dsk]
      fill_sheets_error [of L Workbook m InvalidLayoutMapping]
    by auto
  have 4: "write_cells L ws [JObj r] = Inr (AList.update pos cl ws)"
    if "truthy (dict_get r ''cell_coordinate'' JNull)"
      "getitem L (dict_get r ''cell_coordinate'' JNull) = Cell pos"
      "map_of ws pos = Some old"
      "set_value L (dict_get r ''cell_value'' JNull) = Inr v'"
      "apply_cell_style L (old\<lparr>cell_value := v'\<rparr>) r = Inr cl"
    by (rule write_one [OF that(1,2,4)]) (simp add: that(3,5))
  from 1 2 3 4 show ?thesis by blast
qed

theorem no_layout_validation_witness:
  "json_loads_examples (extracted_text duplicate_text) = Some (JObj duplicate_mapping)
   \<and> write_cells xl_examples [((1, 1), default_styled (JInt 1))]
        [JObj [(''cell_coordinate'', JStr ''A1''), (''cell_value'', JInt 2)]]
       = Inr [((1, 1), default_styled (JInt 2))]"
proof -
  let ?r = "[(''cell_coordinate'', JStr ''A1''), (''cell_value'', JInt 2)]"
  have p: "parse_llm_json json_loads_examples duplicate_text = Inr (JObj duplicate_mapping)"
    by code_simp
  have h: "truthy (dict_get ?r ''cell_coordinate'' JNull)"
    "getitem xl_examples (dict_get ?r ''cell_coordinate'' JNull) = Cell (1, 1)"
    "map_of [((1::int, 1::int), default_styled (JInt 1))] (1, 1) = Some (default_styled (JInt 1))"
    "set_value xl_examples (dict_get ?r ''cell_value'' JNull) = Inr (JInt 2)"
    "apply_cell_style xl_examples ((default_styled (JInt 1))\<lparr>cell_value := JInt 2\<rparr>) ?r
       = Inr (default_styled (JInt 2))"
    by code_simp+
  show ?thesis
    using no_layout_validation [where loads = json_loads_examples and raw = duplicate_text
        and v = "JObj duplicate_mapping" and r = ?r and L = xl_examples and pos = "(1, 1)"
        and ws = "[((1, 1), default_styled (JInt 1))]" and old = "default_styled (JInt 1)"
        and v' = "JInt 2" and cl = "default_styled (JInt 2)"] p h
    by simp
qed

text \<open>
  Claim C2 as stated fails: the text below is accepted by \<^verbatim>\<open>parse_llm_json\<close>, its two
  records share the coordinate A1, against the first invariant of the data model, and
  \<^verbatim>\<open>generate_excel\<close> renders it; cell A1 ends with the value of the second record.
\<close>

theorem duplicate_coordinates_counterexample:
  "parse_llm_json json_loads_examples duplicate_text = Inr (JObj duplicate_mapping)
   \<and> fst (generate_excel xl_examples ''out.xlsx'' duplicate_mapping Map.empty) = Inr ()
   \<and> map_option written
        (snd (generate_excel xl_examples ''out.xlsx'' duplicate_mapping Map.empty) ''out.xlsx'')
       = Some [(''S'', [((1, 1), JInt 2)])]"
  by code_simp

end
